theory Spec2Isabelle
  imports Complex_Main "HOL-Library.Log_Nat" "HOL-Library.Multiset"
begin

section \<open>BlueGuard Security Tools: strength scorer and password generator\<close>

text \<open>
  The two computational parts of \<^verbatim>\<open>app.py\<close> are embedded: \<^verbatim>\<open>rate_password\<close> with its
  helpers, and \<^verbatim>\<open>generate_password\<close> with \<^verbatim>\<open>build_charset\<close>.

  A password is a \<^typ>\<open>string\<close>. A \<^typ>\<open>char\<close> stands for the Unicode code point of the same
  number, so the passwords covered are the Python strings over U+0000 .. U+00FF; on this
  range the character predicates below are Python's \<^verbatim>\<open>str.islower\<close>, \<^verbatim>\<open>str.isupper\<close>,
  \<^verbatim>\<open>str.isdigit\<close>, \<^verbatim>\<open>str.isalnum\<close> and \<^verbatim>\<open>str.lower\<close>.

  Python's floats are modelled by the real numbers: \<^verbatim>\<open>math.log2\<close> is \<^term>\<open>log 2\<close> and the
  product with the length is exact.
\<close>

subsection \<open>Characters\<close>

definition ord :: "char \<Rightarrow> nat" where
  "ord c = of_char c"

definition islower :: "char \<Rightarrow> bool" where
  "islower c = (let n = ord c in
     (97 \<le> n \<and> n \<le> 122) \<or> n = 170 \<or> n = 181 \<or> n = 186 \<or>
     (223 \<le> n \<and> n \<le> 246) \<or> (248 \<le> n \<and> n \<le> 255))"

definition isupper :: "char \<Rightarrow> bool" where
  "isupper c = (let n = ord c in
     (65 \<le> n \<and> n \<le> 90) \<or> (192 \<le> n \<and> n \<le> 214) \<or> (216 \<le> n \<and> n \<le> 222))"

definition isdigit :: "char \<Rightarrow> bool" where
  "isdigit c = (let n = ord c in
     (48 \<le> n \<and> n \<le> 57) \<or> n = 178 \<or> n = 179 \<or> n = 185)"

definition isalnum :: "char \<Rightarrow> bool" where
  "isalnum c = (let n = ord c in
     (48 \<le> n \<and> n \<le> 57) \<or> (65 \<le> n \<and> n \<le> 90) \<or> (97 \<le> n \<and> n \<le> 122) \<or>
     n = 170 \<or> n = 178 \<or> n = 179 \<or> n = 181 \<or> n = 185 \<or> n = 186 \<or>
     (188 \<le> n \<and> n \<le> 190) \<or> (192 \<le> n \<and> n \<le> 214) \<or>
     (216 \<le> n \<and> n \<le> 246) \<or> (248 \<le> n \<and> n \<le> 255))"

definition lower_char :: "char \<Rightarrow> char" where
  "lower_char c = (let n = ord c in
     if (65 \<le> n \<and> n \<le> 90) \<or> (192 \<le> n \<and> n \<le> 214) \<or> (216 \<le> n \<and> n \<le> 222)
     then char_of (n + 32) else c)"

definition lower :: "string \<Rightarrow> string" where
  "lower s = map lower_char s"

subsection \<open>Password strength logic\<close>

definition COMMON :: "string set" where
  "COMMON = {''123456'', ''password'', ''12345678'', ''qwerty'', ''123456789'', ''12345'',
     ''111111'', ''abc123'', ''password1'', ''admin'', ''letmein'', ''welcome'', ''iloveyou'',
     ''monkey'', ''dragon'', ''login''}"

definition SEQUENTIALS :: "string list" where
  "SEQUENTIALS = [''abcdefghijklmnopqrstuvwxyz'', ''qwertyuiop'', ''asdfghjkl'', ''zxcvbnm'',
     ''0123456789'']"

definition has_lower :: "string \<Rightarrow> bool" where
  "has_lower s = list_ex islower s"

definition has_upper :: "string \<Rightarrow> bool" where
  "has_upper s = list_ex isupper s"

definition has_digit :: "string \<Rightarrow> bool" where
  "has_digit s = list_ex isdigit s"

definition has_symbol :: "string \<Rightarrow> bool" where
  "has_symbol s = list_ex (\<lambda>c. \<not> isalnum c) s"

text \<open>
  \<^verbatim>\<open>re.search(rf"(.)\1{{{n-1},}}", s)\<close>: some character matched by \<^verbatim>\<open>.\<close> (any character but
  the newline U+000A) is followed by at least \<open>n - 1\<close> copies of itself. \<open>run_of c k s\<close>
  says that \<open>s\<close> starts with \<open>k\<close> copies of \<open>c\<close>.
\<close>

fun run_of :: "char \<Rightarrow> nat \<Rightarrow> string \<Rightarrow> bool" where
  "run_of c 0 s = True"
| "run_of c (Suc k) [] = False"
| "run_of c (Suc k) (x # xs) = (x = c \<and> run_of c k xs)"

fun has_repeats_n :: "nat \<Rightarrow> string \<Rightarrow> bool" where
  "has_repeats_n n [] = False"
| "has_repeats_n n (c # cs) = ((c \<noteq> CHR 0x0A \<and> run_of c (n - 1) cs) \<or> has_repeats_n n cs)"

definition has_repeats :: "string \<Rightarrow> bool" where
  "has_repeats s = has_repeats_n 3 s"

text \<open>\<^verbatim>\<open>chunk in low\<close>: substring containment.\<close>

fun str_in :: "string \<Rightarrow> string \<Rightarrow> bool" where
  "str_in chunk [] = (chunk = [])"
| "str_in chunk (x # xs) = (take (length chunk) (x # xs) = chunk \<or> str_in chunk xs)"

definition has_sequence_w :: "nat \<Rightarrow> string \<Rightarrow> bool" where
  "has_sequence_w window s = (let low = lower s in
     list_ex (\<lambda>seq.
       list_ex (\<lambda>i. let chunk = take window (drop i seq)
                     in str_in chunk low \<or> str_in (rev chunk) low)
         [0 ..< nat (int (length seq) - int window + 1)])
       SEQUENTIALS)"

definition has_sequence :: "string \<Rightarrow> bool" where
  "has_sequence s = has_sequence_w 4 s"

definition charset_size :: "string \<Rightarrow> int" where
  "charset_size pw = (let size0 = 0;
       size1 = (if has_lower pw then size0 + 26 else size0);
       size2 = (if has_upper pw then size1 + 26 else size1);
       size3 = (if has_digit pw then size2 + 10 else size2);
       size4 = (if has_symbol pw then size3 + 33 else size3)
     in max 1 size4)"

definition estimate_entropy_bits :: "string \<Rightarrow> real" where
  "estimate_entropy_bits pw =
     (if pw = [] then 0 else real (length pw) * log 2 (real_of_int (charset_size pw)))"

text \<open>
  \<^verbatim>\<open>round(x, 1)\<close> on an exact value: to the nearest multiple of one tenth, a tie to the
  even one.
\<close>

definition round1 :: "real \<Rightarrow> real" where
  "round1 x = (let y = x * 10; f = \<lfloor>y\<rfloor>; d = y - of_int f;
       r = (if d < 1 / 2 then f else if 1 / 2 < d then f + 1 else if even f then f else f + 1)
     in of_int r / 10)"

record assessment =
  score :: int
  rating :: string
  entropy :: real
  feedback :: "string list"

text \<open>
  The seven advisory texts. Two of them contain an en dash (U+2013), which is outside the
  range of \<^typ>\<open>char\<close>; it is written as its three UTF-8 bytes.
\<close>

definition en_dash :: string where
  "en_dash = [CHR 0xE2, CHR 0x80, CHR 0x93]"

definition fb_common :: string where
  "fb_common = ''Appears in common-password lists.''"

definition fb_too_short :: string where
  "fb_too_short = ''Too short. Use at least 12'' @ en_dash @ ''14 characters.''"

definition fb_longer :: string where
  "fb_longer = ''Longer is stronger: aim for 12'' @ en_dash @ ''16+ characters.''"

definition fb_repeats :: string where
  "fb_repeats = ''Avoid repeated characters like '' @ [CHR 0x27] @ ''aaa'' @ [CHR 0x27] @
     '' or '' @ [CHR 0x27] @ ''1111'' @ [CHR 0x27] @ ''.''"

definition fb_sequence :: string where
  "fb_sequence = ''Avoid keyboard/alphabetical sequences.''"

definition fb_variety :: string where
  "fb_variety = ''Add upper/lowercase, digits and symbols for variety.''"

definition fb_passphrase :: string where
  "fb_passphrase = ''Consider a passphrase of 4'' @ en_dash @ ''5 random words.''"

definition fb_target :: string where
  "fb_target = ''Target 16+ characters for long-term safety.''"

text \<open>Lines 79 to 83: the base score. \<^verbatim>\<open>int(entropy)\<close> truncates a non-negative real.\<close>

definition variety :: "string \<Rightarrow> int" where
  "variety pw = (\<Sum>b \<leftarrow> [has_lower pw, has_upper pw, has_digit pw, has_symbol pw].
     if b then 1 else 0)"

definition base_score :: "string \<Rightarrow> int" where
  "base_score pw = (let entropy = estimate_entropy_bits pw;
       base = min 80 \<lfloor>entropy\<rfloor>
     in base + (variety pw - 1) * 5)"

text \<open>Lines 85 to 94: the penalty and the feedback collected with it.\<close>

definition penalties :: "string \<Rightarrow> int \<times> string list" where
  "penalties pw = (let len = int (length pw);
       (penalty1, fb1) = (if lower pw \<in> COMMON then (40, [fb_common]) else (0, []));
       (penalty2, fb2) =
         (if len < 8 then (penalty1 + 25, fb1 @ [fb_too_short])
          else if len < 12 then (penalty1 + 10, fb1 @ [fb_longer])
          else (penalty1, fb1));
       (penalty3, fb3) =
         (if has_repeats pw then (penalty2 + 10, fb2 @ [fb_repeats]) else (penalty2, fb2));
       (penalty4, fb4) =
         (if has_sequence pw then (penalty3 + 10, fb3 @ [fb_sequence]) else (penalty3, fb3));
       fb5 = (if variety pw \<le> 2 then fb4 @ [fb_variety] else fb4)
     in (penalty4, fb5))"

text \<open>Lines 96 to 101: the clamped score and its rating.\<close>

definition score_of :: "string \<Rightarrow> int" where
  "score_of pw = max 0 (min 100 (base_score pw - fst (penalties pw)))"

definition rating_of :: "int \<Rightarrow> string" where
  "rating_of sc =
     (if sc < 25 then ''Very Weak''
      else if sc < 45 then ''Weak''
      else if sc < 65 then ''Fair''
      else if sc < 85 then ''Strong''
      else ''Excellent'')"

text \<open>Lines 103 to 106: the closing advice, appended once the rating is known.\<close>

definition advice :: "string \<Rightarrow> string list" where
  "advice pw = (let len = int (length pw);
       rating = rating_of (score_of pw);
       fb5 = snd (penalties pw);
       fb6 = (if rating \<in> {''Very Weak'', ''Weak''} then fb5 @ [fb_passphrase] else fb5);
       fb7 = (if rating \<noteq> ''Excellent'' \<and> len < 16 then fb6 @ [fb_target] else fb6)
     in fb7)"

text \<open>Lines 108 to 112: the loop over \<^verbatim>\<open>fb\<close> with the set \<^verbatim>\<open>seen\<close> and the list \<^verbatim>\<open>tips\<close>.\<close>

fun dedupe_loop :: "string list \<Rightarrow> string set \<Rightarrow> string list \<Rightarrow> string list" where
  "dedupe_loop [] seen tips = tips"
| "dedupe_loop (t # ts) seen tips =
     (if t \<notin> seen then dedupe_loop ts (insert t seen) (tips @ [t])
      else dedupe_loop ts seen tips)"

definition dedupe :: "string list \<Rightarrow> string list" where
  "dedupe fb = dedupe_loop fb {} []"

definition rate_password :: "string \<Rightarrow> assessment" where
  "rate_password pw =
     (if pw = [] then
        \<lparr>score = 0, rating = ''Very Weak'', entropy = 0, feedback = [''Password is empty.'']\<rparr>
      else
        \<lparr>score = score_of pw, rating = rating_of (score_of pw),
         entropy = round1 (estimate_entropy_bits pw), feedback = dedupe (advice pw)\<rparr>)"

text \<open>
  The order the specification asks of the feedback: each string once, at the place of its
  first occurrence.
\<close>

fun first_occurrences :: "'a list \<Rightarrow> 'a list" where
  "first_occurrences [] = []"
| "first_occurrences (x # xs) = x # first_occurrences (filter (\<lambda>y. y \<noteq> x) xs)"

subsection \<open>The secure random source\<close>

text \<open>
  The draws of the platform's generator are a tape of natural numbers read from a position;
  \<^verbatim>\<open>secrets.randbelow(n)\<close> reads one cell and reduces it below \<open>n\<close>, so every outcome of
  the real generator is the run on some tape. A call that raises reads nothing.
\<close>

record rng =
  tape :: "nat \<Rightarrow> nat"
  pos :: nat

datatype error = ValueError string | IndexError string

definition randbelow :: "int \<Rightarrow> rng \<Rightarrow> (error + nat) \<times> rng" where
  "randbelow n g =
     (if n \<le> 0 then (Inl (ValueError ''Upper bound must be positive.''), g)
      else (Inr (tape g (pos g) mod nat n), g\<lparr>pos := pos g + 1\<rparr>))"

definition choice :: "'a list \<Rightarrow> rng \<Rightarrow> (error + 'a) \<times> rng" where
  "choice seq g =
     (if seq = [] then (Inl (IndexError ''Cannot choose from an empty sequence''), g)
      else case randbelow (int (length seq)) g of
             (Inl e, g') \<Rightarrow> (Inl e, g')
           | (Inr i, g') \<Rightarrow> (Inr (seq ! i), g'))"

text \<open>
  \<^verbatim>\<open>random.shuffle\<close>: for \<open>i\<close> from \<open>len(x) - 1\<close> down to 1, exchange \<open>x[i]\<close> with
  \<open>x[randbelow(i + 1)]\<close>.
\<close>

fun shuffle_loop :: "nat \<Rightarrow> 'a list \<Rightarrow> rng \<Rightarrow> (error + 'a list) \<times> rng" where
  "shuffle_loop 0 x g = (Inr x, g)"
| "shuffle_loop (Suc i) x g =
     (case randbelow (int (Suc i) + 1) g of
        (Inl e, g') \<Rightarrow> (Inl e, g')
      | (Inr j, g') \<Rightarrow> shuffle_loop i (x[Suc i := x ! j, j := x ! Suc i]) g')"

definition shuffle :: "'a list \<Rightarrow> rng \<Rightarrow> (error + 'a list) \<times> rng" where
  "shuffle x g = shuffle_loop (length x - 1) x g"

subsection \<open>Password generator\<close>

definition ascii_lowercase :: string where
  "ascii_lowercase = ''abcdefghijklmnopqrstuvwxyz''"

definition ascii_uppercase :: string where
  "ascii_uppercase = ''ABCDEFGHIJKLMNOPQRSTUVWXYZ''"

definition digits_str :: string where
  "digits_str = ''0123456789''"

definition symbols_str :: string where
  "symbols_str = ''!@#$%^&*_-+=:?/~''"

definition AMBIGUOUS :: "char set" where
  "AMBIGUOUS = set (''O0oIl1|'' @ [CHR 0x60, CHR 0x27, CHR 0x22] @ '';:,.{}[]()<>'')"

definition build_charset :: "bool \<Rightarrow> bool \<Rightarrow> bool \<Rightarrow> bool \<Rightarrow> bool \<Rightarrow> string" where
  "build_charset lower' upper digits symbols no_amb =
     (let chars0 = [];
          chars1 = (if lower' then chars0 @ ascii_lowercase else chars0);
          chars2 = (if upper then chars1 @ ascii_uppercase else chars1);
          chars3 = (if digits then chars2 @ digits_str else chars2);
          chars4 = (if symbols then chars3 @ symbols_str else chars3)
      in if no_amb then filter (\<lambda>c. c \<notin> AMBIGUOUS) chars4 else chars4)"

text \<open>Line 135: \<^verbatim>\<open>[secrets.choice(charset) for _ in range(length)]\<close>.\<close>

fun fill :: "nat \<Rightarrow> string \<Rightarrow> rng \<Rightarrow> (error + string) \<times> rng" where
  "fill 0 charset g = (Inr [], g)"
| "fill (Suc k) charset g =
     (case choice charset g of
        (Inl e, g') \<Rightarrow> (Inl e, g')
      | (Inr c, g') \<Rightarrow>
          (case fill k charset g' of
             (Inl e, g'') \<Rightarrow> (Inl e, g'')
           | (Inr cs, g'') \<Rightarrow> (Inr (c # cs), g'')))"

text \<open>Lines 142 to 144: one overwrite for each pool.\<close>

fun ensure_complexity :: "string list \<Rightarrow> string \<Rightarrow> rng \<Rightarrow> (error + string) \<times> rng" where
  "ensure_complexity [] pw g = (Inr pw, g)"
| "ensure_complexity (pool # pools) pw g =
     (case randbelow (int (length pw)) g of
        (Inl e, g') \<Rightarrow> (Inl e, g')
      | (Inr idx, g') \<Rightarrow>
          (case choice pool g' of
             (Inl e, g'') \<Rightarrow> (Inl e, g'')
           | (Inr c, g'') \<Rightarrow> ensure_complexity pools (pw[idx := c]) g''))"

definition class_pools :: "bool \<Rightarrow> bool \<Rightarrow> bool \<Rightarrow> bool \<Rightarrow> string list" where
  "class_pools lower' upper digits symbols =
     (if lower' then [ascii_lowercase] else []) @
     (if upper then [ascii_uppercase] else []) @
     (if digits then [digits_str] else []) @
     (if symbols then [symbols_str] else [])"

definition count_true :: "bool list \<Rightarrow> int" where
  "count_true bs = (\<Sum>b \<leftarrow> bs. if b then 1 else 0)"

definition generate_password ::
  "int \<Rightarrow> bool \<Rightarrow> bool \<Rightarrow> bool \<Rightarrow> bool \<Rightarrow> bool \<Rightarrow> rng \<Rightarrow> (error + string) \<times> rng" where
  "generate_password len lower' upper digits symbols no_amb g =
     (if \<not> (lower' \<or> upper \<or> digits \<or> symbols) then
        (Inl (ValueError ''Enable at least one character set.''), g)
      else if len < max 4 (count_true [lower', upper, digits, symbols]) then
        (Inl (ValueError ''Length too short for requested complexity.''), g)
      else
        let charset = build_charset lower' upper digits symbols no_amb in
        case fill (nat len) charset g of
          (Inl e, g1) \<Rightarrow> (Inl e, g1)
        | (Inr pw, g1) \<Rightarrow>
            (case ensure_complexity (class_pools lower' upper digits symbols) pw g1 of
               (Inl e, g2) \<Rightarrow> (Inl e, g2)
             | (Inr pw', g2) \<Rightarrow> shuffle pw' g2))"

section \<open>Properties of the strength scorer\<close>

subsection \<open>Bounds on the parts of the score\<close>

lemma variety_bounds: "0 \<le> variety pw \<and> variety pw \<le> 4"
  by (simp add: variety_def)

lemma penalties_nonneg: "0 \<le> fst (penalties pw)"
  by (simp add: penalties_def Let_def)

lemma base_score_le: "base_score pw \<le> 95"
proof -
  have "min 80 \<lfloor>estimate_entropy_bits pw\<rfloor> \<le> 80" by simp
  moreover have "(variety pw - 1) * 5 \<le> 15" using variety_bounds [of pw] by simp
  ultimately show ?thesis unfolding base_score_def Let_def by linarith
qed

lemma charset_size_pos: "1 \<le> charset_size pw"
  by (simp add: charset_size_def Let_def)

text \<open>
  Claim C4: for every string, the score lies between 0 and 100, and the rating is the
  threshold bucket of the score: below 25 Very Weak, below 45 Weak, below 65 Fair, below 85
  Strong, otherwise Excellent.
\<close>

theorem rate_score_range_and_rating:
  "0 \<le> score (rate_password s) \<and> score (rate_password s) \<le> 100 \<and>
   rating (rate_password s) =
     (if score (rate_password s) < 25 then ''Very Weak''
      else if score (rate_password s) < 45 then ''Weak''
      else if score (rate_password s) < 65 then ''Fair''
      else if score (rate_password s) < 85 then ''Strong''
      else ''Excellent'')"
proof (cases "s = []")
  case True
  then show ?thesis by (simp add: rate_password_def)
next
  case False
  have "0 \<le> score_of s" and "score_of s \<le> 100"
    by (simp_all add: score_of_def)
  with False show ?thesis by (simp add: rate_password_def rating_of_def)
qed

text \<open>
  Claim C5: the empty password gets the minimum assessment: score 0, rating Very Weak,
  entropy 0.0 and the single advisory "Password is empty.".
\<close>

theorem rate_empty:
  "rate_password [] =
     \<lparr>score = 0, rating = ''Very Weak'', entropy = 0, feedback = [''Password is empty.'']\<rparr>"
  by (simp add: rate_password_def)

text \<open>
  Claim C9: the score never exceeds 95. The base score is at most 80 + 15 and no penalty is
  negative, so the value clamped stays below 100, and the rating is Excellent exactly for
  the scores from 85 to 95.
\<close>

theorem rate_score_le_95:
  "score (rate_password s) \<le> 95 \<and>
   base_score s \<le> 95 \<and>
   base_score s - fst (penalties s) < 100 \<and>
   (rating (rate_password s) = ''Excellent'') =
     (85 \<le> score (rate_password s) \<and> score (rate_password s) \<le> 95)"
proof -
  have b: "base_score s \<le> 95" by (rule base_score_le)
  have p: "0 \<le> fst (penalties s)" by (rule penalties_nonneg)
  have sc: "score_of s \<le> 95" using b p by (simp add: score_of_def)
  show ?thesis using b p sc by (simp add: rate_password_def rating_of_def)
qed

subsection \<open>Monotonicity in the length\<close>

lemma penalties_clean:
  assumes "lower pw \<notin> COMMON" "\<not> has_repeats pw" "\<not> has_sequence pw"
  shows "fst (penalties pw) =
    (if int (length pw) < 8 then 25 else if int (length pw) < 12 then 10 else 0)"
  using assms by (simp add: penalties_def Let_def)

lemma entropy_mono:
  assumes "charset_size p = charset_size q" "length p \<le> length q"
  shows "estimate_entropy_bits p \<le> estimate_entropy_bits q"
proof -
  have L: "0 \<le> log 2 (real_of_int (charset_size q))"
    using charset_size_pos [of q] by simp
  have "real (length p) * log 2 (real_of_int (charset_size q))
      \<le> real (length q) * log 2 (real_of_int (charset_size q))"
    using assms(2) L by (intro mult_right_mono) simp_all
  moreover have "p = [] \<Longrightarrow> 0 \<le> real (length q) * log 2 (real_of_int (charset_size q))"
    using L by simp
  ultimately show ?thesis
    using assms by (auto simp: estimate_entropy_bits_def)
qed

text \<open>
  The windows of \<^const>\<open>has_sequence\<close>, computed once: the 47 four-character slices of the
  five reference sequences.
\<close>

lemma has_sequence_chunks:
  "has_sequence s =
     list_ex (\<lambda>chunk. str_in chunk (lower s) \<or> str_in (rev chunk) (lower s))
     [''abcd'', ''bcde'', ''cdef'', ''defg'', ''efgh'', ''fghi'', ''ghij'', ''hijk'',
      ''ijkl'', ''jklm'', ''klmn'', ''lmno'', ''mnop'', ''nopq'', ''opqr'', ''pqrs'',
      ''qrst'', ''rstu'', ''stuv'', ''tuvw'', ''uvwx'', ''vwxy'', ''wxyz'', ''qwer'',
      ''wert'', ''erty'', ''rtyu'', ''tyui'', ''yuio'', ''uiop'', ''asdf'', ''sdfg'',
      ''dfgh'', ''fghj'', ''ghjk'', ''hjkl'', ''zxcv'', ''xcvb'', ''cvbn'', ''vbnm'',
      ''0123'', ''1234'', ''2345'', ''3456'', ''4567'', ''5678'', ''6789'']"
  by (simp add: has_sequence_def has_sequence_w_def SEQUENTIALS_def Let_def upt_rec)

text \<open>The integer part of the entropy, from two powers of two around \<open>size ^ length\<close>.\<close>

lemma floor_entropy_bracket:
  assumes "pw \<noteq> []"
    and "2 ^ k \<le> nat (charset_size pw) ^ length pw"
    and "nat (charset_size pw) ^ length pw < 2 ^ (k + 1)"
  shows "\<lfloor>estimate_entropy_bits pw\<rfloor> = int k"
proof -
  define s where "s = nat (charset_size pw)"
  have s: "0 < s" "real_of_int (charset_size pw) = real s"
    using charset_size_pos [of pw] by (simp_all add: s_def)
  have "real (length pw) * log 2 (real s) = log (real 2) (real (s ^ length pw))"
    using s(1) by (simp add: log_nat_power)
  moreover have "\<lfloor>log (real 2) (real (s ^ length pw))\<rfloor> = int k"
    using assms(2,3) by (intro floor_log_nat_eq_if) (simp_all add: s_def)
  ultimately show ?thesis
    using assms(1) s(2) by (simp add: estimate_entropy_bits_def)
qed

text \<open>
  Claim C6: of two passwords with the same character classes present, neither in the
  common list, neither with a repeat nor a sequence, the longer one scores at least as
  much as the shorter one.
\<close>

theorem rate_monotone_in_length:
  assumes classes: "has_lower p = has_lower q" "has_upper p = has_upper q"
      "has_digit p = has_digit q" "has_symbol p = has_symbol q"
    and clean_p: "lower p \<notin> COMMON" "\<not> has_repeats p" "\<not> has_sequence p"
    and clean_q: "lower q \<notin> COMMON" "\<not> has_repeats q" "\<not> has_sequence q"
    and longer: "length p < length q"
  shows "score (rate_password p) \<le> score (rate_password q)"
proof (cases "p = []")
  case True
  have "0 \<le> score_of q" by (simp add: score_of_def)
  with True longer show ?thesis by (auto simp: rate_password_def)
next
  case False
  with longer have q: "q \<noteq> []" by auto
  have cs: "charset_size p = charset_size q"
    using classes by (simp add: charset_size_def)
  have v: "variety p = variety q"
    using classes by (simp add: variety_def)
  have "\<lfloor>estimate_entropy_bits p\<rfloor> \<le> \<lfloor>estimate_entropy_bits q\<rfloor>"
    using entropy_mono [OF cs] longer by (simp add: floor_mono)
  then have b: "base_score p \<le> base_score q"
    using v by (simp add: base_score_def Let_def)
  have pen: "fst (penalties q) \<le> fst (penalties p)"
    using longer by (simp add: penalties_clean clean_p clean_q)
  have "score_of p \<le> score_of q"
    using b pen unfolding score_of_def by linarith
  with False q show ?thesis by (simp add: rate_password_def)
qed

lemma blue_facts:
  "has_lower ''Blue7!sky'' = has_lower ''Blue7!skyline''"
  "has_upper ''Blue7!sky'' = has_upper ''Blue7!skyline''"
  "has_digit ''Blue7!sky'' = has_digit ''Blue7!skyline''"
  "has_symbol ''Blue7!sky'' = has_symbol ''Blue7!skyline''"
  "lower ''Blue7!sky'' = ''blue7!sky''"
  "lower ''Blue7!skyline'' = ''blue7!skyline''"
  "\<not> has_repeats ''Blue7!sky''"
  "\<not> has_repeats ''Blue7!skyline''"
  by code_simp+

lemma blue_score: "score (rate_password ''Blue7!sky'') = 64"
proof -
  let ?p = "''Blue7!sky''"
  have cl: "has_lower ?p" "has_upper ?p" "has_digit ?p" "has_symbol ?p" by code_simp+
  have cs: "charset_size ?p = 95" using cl by (simp add: charset_size_def)
  have v: "variety ?p = 4" using cl by (simp add: variety_def)
  have "\<lfloor>estimate_entropy_bits ?p\<rfloor> = int 59"
    by (rule floor_entropy_bracket) (simp_all add: cs)
  then have b: "base_score ?p = 74" using v by (simp add: base_score_def)
  have cp: "lower ?p \<notin> COMMON" by (simp add: blue_facts COMMON_def)
  have sp: "\<not> has_sequence ?p" by (simp add: has_sequence_chunks blue_facts)
  have "fst (penalties ?p) = 10" using penalties_clean [OF cp blue_facts(7) sp] by simp
  with b show ?thesis by (simp add: rate_password_def score_of_def)
qed

theorem rate_monotone_in_length_witness:
  "length ''Blue7!sky'' < length ''Blue7!skyline'' \<and>
   lower ''Blue7!sky'' \<notin> COMMON \<and> \<not> has_repeats ''Blue7!sky'' \<and>
   \<not> has_sequence ''Blue7!sky'' \<and>
   lower ''Blue7!skyline'' \<notin> COMMON \<and> \<not> has_repeats ''Blue7!skyline'' \<and>
   \<not> has_sequence ''Blue7!skyline'' \<and>
   score (rate_password ''Blue7!sky'') = 64 \<and>
   64 \<le> score (rate_password ''Blue7!skyline'')"
proof -
  let ?p = "''Blue7!sky''" and ?q = "''Blue7!skyline''"
  have cp: "lower ?p \<notin> COMMON" by (simp add: blue_facts COMMON_def)
  have cq: "lower ?q \<notin> COMMON" by (simp add: blue_facts COMMON_def)
  have sp: "\<not> has_sequence ?p" by (simp add: has_sequence_chunks blue_facts)
  have sq: "\<not> has_sequence ?q" by (simp add: has_sequence_chunks blue_facts)
  have len: "length ?p < length ?q" by simp
  have "score (rate_password ?p) \<le> score (rate_password ?q)"
    by (rule rate_monotone_in_length
        [OF blue_facts(1-4) cp blue_facts(7) sp cq blue_facts(8) sq len])
  then have "64 \<le> score (rate_password ?q)" by (simp add: blue_score)
  with cp cq sp sq len blue_facts(7,8) blue_score show ?thesis by (intro conjI)
qed

subsection \<open>The feedback list\<close>

lemma dedupe_loop_first_occurrences:
  "dedupe_loop ts seen tips = tips @ first_occurrences (filter (\<lambda>t. t \<notin> seen) ts)"
proof (induction ts arbitrary: seen tips)
  case Nil
  then show ?case by simp
next
  case (Cons t ts)
  have "filter (\<lambda>y. y \<noteq> t) (filter (\<lambda>t. t \<notin> seen) ts) = filter (\<lambda>y. y \<notin> insert t seen) ts"
    by (induction ts) auto
  then show ?case using Cons.IH by simp
qed

lemma dedupe_first_occurrences: "dedupe fb = first_occurrences fb"
  by (simp add: dedupe_def dedupe_loop_first_occurrences)

lemma set_first_occurrences: "set (first_occurrences xs) = set xs"
proof (induction xs rule: first_occurrences.induct)
  case 1
  then show ?case by simp
next
  case (2 x xs)
  then show ?case by auto
qed

lemma distinct_first_occurrences: "distinct (first_occurrences xs)"
proof (induction xs rule: first_occurrences.induct)
  case 1
  then show ?case by simp
next
  case (2 x xs)
  then show ?case by (simp add: set_first_occurrences)
qed

text \<open>
  Claim C7: for every password the feedback has no duplicate entry, and it is the list of
  the advisories collected, each kept at its first occurrence.
\<close>

theorem rate_feedback_distinct_ordered:
  "distinct (feedback (rate_password s)) \<and>
   feedback (rate_password s) =
     first_occurrences (if s = [] then [''Password is empty.''] else advice s)"
  by (simp add: rate_password_def dedupe_first_occurrences distinct_first_occurrences)

lemma log2_95_ge_6: "6 \<le> log 2 95"
  by (simp add: le_log_iff)

lemma rate_all_classes_long_clean:
  assumes classes: "has_lower pw" "has_upper pw" "has_digit pw" "has_symbol pw"
    and long: "16 \<le> length pw"
    and clean: "lower pw \<notin> COMMON" "\<not> has_repeats pw" "\<not> has_sequence pw"
  shows "score_of pw = 95 \<and> advice pw = []"
proof -
  have ne: "pw \<noteq> []" using long by auto
  have cs: "charset_size pw = 95" using classes by (simp add: charset_size_def)
  have v: "variety pw = 4" using classes by (simp add: variety_def)
  have "real 16 * 6 \<le> real (length pw) * log 2 95"
    using long log2_95_ge_6 by (intro mult_mono) simp_all
  then have "80 \<le> estimate_entropy_bits pw"
    using ne cs by (simp add: estimate_entropy_bits_def)
  then have "80 \<le> \<lfloor>estimate_entropy_bits pw\<rfloor>" by (simp add: le_floor_iff)
  then have b: "base_score pw = 95" using v by (simp add: base_score_def Let_def)
  have p: "penalties pw = (0, [])"
    using clean long v by (simp add: penalties_def Let_def)
  have s: "score_of pw = 95" using b p by (simp add: score_of_def)
  have "advice pw = []" using s p by (simp add: advice_def Let_def rating_of_def)
  with s show ?thesis by simp
qed

lemma troubador_facts:
  "has_lower ''Tr0ub4dor&9xZp!Qm''" "has_upper ''Tr0ub4dor&9xZp!Qm''"
  "has_digit ''Tr0ub4dor&9xZp!Qm''" "has_symbol ''Tr0ub4dor&9xZp!Qm''"
  "lower ''Tr0ub4dor&9xZp!Qm'' = ''tr0ub4dor&9xzp!qm''"
  "\<not> has_repeats ''Tr0ub4dor&9xZp!Qm''"
  by code_simp+

text \<open>
  Claim C10: some non-empty password, with all four character classes, at least 16
  characters, not in the common list and with no repeat and no sequence, gets an empty
  feedback list. The password is \<^verbatim>\<open>Tr0ub4dor&9xZp!Qm\<close>.
\<close>

theorem rate_feedback_can_be_empty:
  "\<exists>pw. pw \<noteq> [] \<and> has_lower pw \<and> has_upper pw \<and> has_digit pw \<and> has_symbol pw \<and>
     16 \<le> length pw \<and> lower pw \<notin> COMMON \<and> \<not> has_repeats pw \<and> \<not> has_sequence pw \<and>
     feedback (rate_password pw) = []"
proof -
  let ?pw = "''Tr0ub4dor&9xZp!Qm''"
  have c: "lower ?pw \<notin> COMMON" by (simp add: troubador_facts COMMON_def)
  have s: "\<not> has_sequence ?pw" by (simp add: has_sequence_chunks troubador_facts)
  have l: "16 \<le> length ?pw" by simp
  have "advice ?pw = []"
    using rate_all_classes_long_clean [OF troubador_facts(1-4) l c troubador_facts(6) s] by simp
  then have "feedback (rate_password ?pw) = []"
    by (simp add: rate_password_def dedupe_def)
  with c s l troubador_facts show ?thesis by (intro exI [of _ ?pw]) simp
qed

section \<open>Properties of the password generator\<close>

subsection \<open>The random source\<close>

lemma randbelow_pos:
  "0 < n \<Longrightarrow> randbelow n g = (Inr (tape g (pos g) mod nat n), g\<lparr>pos := pos g + 1\<rparr>)"
  by (simp add: randbelow_def)

lemma choice_nonempty:
  "seq \<noteq> [] \<Longrightarrow>
   choice seq g = (Inr (seq ! (tape g (pos g) mod length seq)), g\<lparr>pos := pos g + 1\<rparr>)"
  by (simp add: choice_def randbelow_pos)

lemma choice_ok:
  assumes "seq \<noteq> []"
  shows "\<exists>c g'. choice seq g = (Inr c, g') \<and> c \<in> set seq"
  using assms by (simp add: choice_nonempty)

text \<open>The shuffle returns a permutation of its argument.\<close>

lemma shuffle_loop_ok:
  assumes "i < length x"
  shows "\<exists>r g'. shuffle_loop i x g = (Inr r, g') \<and> mset r = mset x"
  using assms
proof (induction i arbitrary: x g)
  case 0
  then show ?case by simp
next
  case (Suc i)
  let ?j = "tape g (pos g) mod (Suc i + 1)"
  let ?g1 = "g\<lparr>pos := pos g + 1\<rparr>"
  let ?x = "x[Suc i := x ! ?j, ?j := x ! Suc i]"
  have rb: "randbelow (int (Suc i) + 1) g = (Inr ?j, ?g1)"
    by (simp add: randbelow_pos nat_add_distrib)
  have "?j < Suc i + 1" by simp
  then have j: "?j < length x" using Suc.prems by linarith
  have m: "mset ?x = mset x" using Suc.prems j by (simp add: mset_swap)
  have "i < length ?x" using Suc.prems by simp
  from Suc.IH [OF this] obtain r g2 where
    "shuffle_loop i ?x ?g1 = (Inr r, g2)" "mset r = mset ?x" by blast
  with rb m show ?case by simp
qed

lemma shuffle_ok: "\<exists>r g'. shuffle x g = (Inr r, g') \<and> mset r = mset x"
proof (cases "x = []")
  case True
  then show ?thesis by (simp add: shuffle_def)
next
  case False
  then have "length x - 1 < length x" by simp
  from shuffle_loop_ok [OF this] show ?thesis by (simp add: shuffle_def)
qed

subsection \<open>The steps of the generator\<close>

lemma fill_ok:
  assumes "charset \<noteq> []"
  shows "\<exists>r g'. fill k charset g = (Inr r, g') \<and> length r = k \<and> set r \<subseteq> set charset"
proof (induction k arbitrary: g)
  case 0
  then show ?case by simp
next
  case (Suc k)
  obtain c g1 where c: "choice charset g = (Inr c, g1)" "c \<in> set charset"
    using choice_ok [OF assms] by blast
  obtain r g2 where r: "fill k charset g1 = (Inr r, g2)" "length r = k" "set r \<subseteq> set charset"
    using Suc.IH by blast
  show ?case using c r by simp
qed

lemma ensure_complexity_ok:
  assumes "pw \<noteq> []" "\<forall>pool \<in> set pools. pool \<noteq> []"
  shows "\<exists>r g'. ensure_complexity pools pw g = (Inr r, g') \<and> length r = length pw \<and>
           set r \<subseteq> set pw \<union> \<Union> (set ` set pools)"
  using assms
proof (induction pools arbitrary: pw g)
  case Nil
  then show ?case by simp
next
  case (Cons pool pools)
  let ?idx = "tape g (pos g) mod length pw"
  let ?g1 = "g\<lparr>pos := pos g + 1\<rparr>"
  have rb: "randbelow (int (length pw)) g = (Inr ?idx, ?g1)"
    using Cons.prems(1) by (simp add: randbelow_pos)
  obtain c g2 where c: "choice pool ?g1 = (Inr c, g2)" "c \<in> set pool"
    using choice_ok [of pool ?g1] Cons.prems(2) by auto
  have ne: "pw[?idx := c] \<noteq> []" using Cons.prems(1) by simp
  have rest: "\<forall>pool \<in> set pools. pool \<noteq> []" using Cons.prems(2) by simp
  obtain r g3 where r: "ensure_complexity pools (pw[?idx := c]) g2 = (Inr r, g3)"
      "length r = length (pw[?idx := c])"
      "set r \<subseteq> set (pw[?idx := c]) \<union> \<Union> (set ` set pools)"
    using Cons.IH [OF ne rest, of g2] by blast
  have "set (pw[?idx := c]) \<subseteq> insert c (set pw)" by (rule set_update_subset_insert)
  with r(3) c(2) have "set r \<subseteq> set pw \<union> \<Union> (set ` set (pool # pools))" by auto
  with rb c(1) r(1,2) show ?case by simp
qed

lemma class_pools_nonempty: "\<forall>pool \<in> set (class_pools l u d s). pool \<noteq> []"
  by (auto simp: class_pools_def ascii_lowercase_def ascii_uppercase_def digits_str_def
      symbols_str_def split: if_splits)

lemma build_charset_nonempty:
  assumes "l \<or> u \<or> d \<or> s"
  shows "build_charset l u d s na \<noteq> []"
proof -
  have a: "CHR ''a'' \<notin> AMBIGUOUS" "CHR ''A'' \<notin> AMBIGUOUS" "CHR ''2'' \<notin> AMBIGUOUS"
    "CHR ''!'' \<notin> AMBIGUOUS"
    by (simp_all add: AMBIGUOUS_def)
  have "l \<Longrightarrow> CHR ''a'' \<in> set (build_charset l u d s na)"
    using a by (simp add: build_charset_def Let_def ascii_lowercase_def)
  moreover have "u \<Longrightarrow> CHR ''A'' \<in> set (build_charset l u d s na)"
    using a by (simp add: build_charset_def Let_def ascii_uppercase_def)
  moreover have "d \<Longrightarrow> CHR ''2'' \<in> set (build_charset l u d s na)"
    using a by (simp add: build_charset_def Let_def digits_str_def)
  moreover have "s \<Longrightarrow> CHR ''!'' \<in> set (build_charset l u d s na)"
    using a by (simp add: build_charset_def Let_def symbols_str_def)
  ultimately show ?thesis using assms by fastforce
qed

lemma build_charset_subset:
  "set (build_charset l u d s na) \<subseteq> \<Union> (set ` set (class_pools l u d s))"
  by (auto simp: build_charset_def class_pools_def Let_def split: if_splits)

lemma generate_valid:
  assumes flags: "l \<or> u \<or> d \<or> s" and len: "max 4 (count_true [l, u, d, s]) \<le> len"
  shows "\<exists>pw g'. generate_password len l u d s na g = (Inr pw, g') \<and> int (length pw) = len \<and>
           set pw \<subseteq> \<Union> (set ` set (class_pools l u d s))"
proof -
  let ?cs = "build_charset l u d s na"
  let ?pools = "class_pools l u d s"
  have cs: "?cs \<noteq> []" using flags by (rule build_charset_nonempty)
  obtain pw0 g1 where f: "fill (nat len) ?cs g = (Inr pw0, g1)" "length pw0 = nat len"
      "set pw0 \<subseteq> set ?cs"
    using fill_ok [OF cs] by blast
  have ne: "pw0 \<noteq> []" using f(2) len by auto
  obtain pw1 g2 where e: "ensure_complexity ?pools pw0 g1 = (Inr pw1, g2)"
      "length pw1 = length pw0" "set pw1 \<subseteq> set pw0 \<union> \<Union> (set ` set ?pools)"
    using ensure_complexity_ok [OF ne class_pools_nonempty] by blast
  obtain pw2 g3 where sh: "shuffle pw1 g2 = (Inr pw2, g3)" "mset pw2 = mset pw1"
    using shuffle_ok by blast
  have l2: "length pw2 = length pw1" using sh(2) by (rule mset_eq_length)
  have s2: "set pw2 = set pw1" using sh(2) by (rule mset_eq_setD)
  have "int (length pw2) = len" using l2 e(2) f(2) len by simp
  moreover have "set pw2 \<subseteq> \<Union> (set ` set ?pools)"
    using s2 e(3) f(3) build_charset_subset [of l u d s na] by blast
  moreover have "generate_password len l u d s na g = (Inr pw2, g3)"
    using flags len f(1) e(1) sh(1) by (auto simp: generate_password_def max_def)
  ultimately show ?thesis by blast
qed

subsection \<open>A run of the generator, step by step\<close>

text \<open>Closed forms of the three loops, for evaluating a run on a given tape.\<close>

lemma fill_closed_form:
  assumes "charset \<noteq> []"
  shows "fill k charset g =
    (Inr (map (\<lambda>i. charset ! (tape g (pos g + i) mod length charset)) [0..<k]),
     g\<lparr>pos := pos g + k\<rparr>)"
proof (induction k arbitrary: g)
  case 0
  then show ?case by simp
next
  case (Suc k)
  show ?case
    by (simp add: choice_nonempty [OF assms] Suc.IH map_upt_Suc del: upt_Suc)
qed

lemma ensure_complexity_step:
  assumes "pw \<noteq> []" "pool \<noteq> []"
  shows "ensure_complexity (pool # pools) pw g =
    ensure_complexity pools
      (pw[tape g (pos g) mod length pw := pool ! (tape g (pos g + 1) mod length pool)])
      (g\<lparr>pos := pos g + 2\<rparr>)"
  using assms by (simp add: randbelow_pos choice_nonempty)

lemma shuffle_loop_Suc:
  "shuffle_loop (Suc i) x g =
     shuffle_loop i
       (x[Suc i := x ! (tape g (pos g) mod (Suc i + 1)),
          tape g (pos g) mod (Suc i + 1) := x ! Suc i])
       (g\<lparr>pos := pos g + 1\<rparr>)"
  by (simp add: randbelow_pos nat_add_distrib)

lemma shuffle_loop_numeral:
  "shuffle_loop (numeral k) x g =
     shuffle_loop (pred_numeral k)
       (x[numeral k := x ! (tape g (pos g) mod (numeral k + 1)),
          tape g (pos g) mod (numeral k + 1) := x ! numeral k])
       (g\<lparr>pos := pos g + 1\<rparr>)"
  unfolding numeral_eq_Suc by (rule shuffle_loop_Suc)

text \<open>
  The run with all four classes, length 16 and the exclusion set, on the tape
  3, 10, 17, ...: the buffer after the fill step, after the four overwrites and after the
  shuffle.
\<close>

lemma default_run:
  "fst (generate_password 16 True True True True True \<lparr>tape = (\<lambda>i. 7 * i + 3), pos = 0\<rparr>) =
     Inr ''dtQsXG0+HG$6cs%j''"
proof -
  let ?t = "\<lambda>i::nat. 7 * i + 3 :: nat"
  define cs where "cs = ''abcdefghijkmnpqrstuvwxyzABCDEFGHJKLMNPQRSTUVWXYZ23456789!@#$%^&*_-+=?/~''"
  define pw0 where "pw0 = ''dktAHQX6$+cjszGP''"
  have cs: "build_charset True True True True True = cs"
    unfolding cs_def by code_simp
  have cs_len: "length cs = 71" "cs \<noteq> []" by (simp_all add: cs_def)
  have "fill 16 cs \<lparr>tape = ?t, pos = 0\<rparr> =
      (Inr (map (\<lambda>i. cs ! ((7 * i + 3) mod 71)) [0..<16]), \<lparr>tape = ?t, pos = 16\<rparr>)"
    by (simp add: fill_closed_form cs_len del: upt_Suc)
  moreover have "map (\<lambda>i. cs ! ((7 * i + 3) mod 71)) [0..<16] = pw0"
    by (simp add: cs_def pw0_def upt_rec)
  ultimately have f: "fill 16 cs \<lparr>tape = ?t, pos = 0\<rparr> = (Inr pw0, \<lparr>tape = ?t, pos = 16\<rparr>)"
    by simp
  have pw0_len: "length pw0 = 16" "pw0 \<noteq> []" by (simp_all add: pw0_def)
  have pools: "length ascii_lowercase = 26" "length ascii_uppercase = 26"
      "length digits_str = 10" "length symbols_str = 16"
      "ascii_lowercase \<noteq> []" "ascii_uppercase \<noteq> []" "digits_str \<noteq> []" "symbols_str \<noteq> []"
    by (simp_all add: ascii_lowercase_def ascii_uppercase_def digits_str_def symbols_str_def)
  have "ensure_complexity [ascii_lowercase, ascii_uppercase, digits_str, symbols_str] pw0
        \<lparr>tape = ?t, pos = 16\<rparr> =
      (Inr (pw0[3 := ascii_lowercase ! 18, 1 := ascii_uppercase ! 6, 15 := digits_str ! 0,
                13 := symbols_str ! 4]), \<lparr>tape = ?t, pos = 24\<rparr>)"
    by (simp add: ensure_complexity_step pw0_len pools del: ensure_complexity.simps(2))
  moreover have "pw0[3 := ascii_lowercase ! 18, 1 := ascii_uppercase ! 6, 15 := digits_str ! 0,
                13 := symbols_str ! 4] = ''dGtsHQX6$+cjs%G0''"
    by (simp add: pw0_def ascii_lowercase_def ascii_uppercase_def digits_str_def symbols_str_def)
  ultimately have e: "ensure_complexity (class_pools True True True True) pw0
        \<lparr>tape = ?t, pos = 16\<rparr> = (Inr ''dGtsHQX6$+cjs%G0'', \<lparr>tape = ?t, pos = 24\<rparr>)"
    by (simp add: class_pools_def)
  have "length ''dGtsHQX6$+cjs%G0'' - 1 = 15" by simp
  then have s: "shuffle ''dGtsHQX6$+cjs%G0'' \<lparr>tape = ?t, pos = 24\<rparr> =
      (Inr ''dtQsXG0+HG$6cs%j'', \<lparr>tape = ?t, pos = 39\<rparr>)"
    unfolding shuffle_def by (simp only:) (simp add: shuffle_loop_numeral randbelow_def)
  show ?thesis
    by (simp add: generate_password_def count_true_def cs f e s)
qed

subsection \<open>Validation and normal return\<close>

text \<open>
  Claim C2: the generator raises exactly when no class flag is set or the length is below
  \<open>max(4, number of flags set)\<close>. When it raises, the error is one of the two
  \<^verbatim>\<open>ValueError\<close>s of its validation (the configuration error of the specification), nothing
  has been drawn from the random source and there is no output; on every other input it
  returns a password.
\<close>

theorem generate_raises_iff_invalid:
  "(\<exists>e g'. generate_password len l u d s na g = (Inl e, g')) =
     (\<not> (l \<or> u \<or> d \<or> s) \<or> len < max 4 (count_true [l, u, d, s])) \<and>
   (\<forall>e g'. generate_password len l u d s na g = (Inl e, g') \<longrightarrow>
      g' = g \<and> (e = ValueError ''Enable at least one character set.'' \<or>
                e = ValueError ''Length too short for requested complexity.'')) \<and>
   ((l \<or> u \<or> d \<or> s) \<and> max 4 (count_true [l, u, d, s]) \<le> len \<longrightarrow>
      (\<exists>pw g'. generate_password len l u d s na g = (Inr pw, g')))"
proof -
  consider (no_flag) "\<not> (l \<or> u \<or> d \<or> s)"
    | (short) "l \<or> u \<or> d \<or> s" "len < max 4 (count_true [l, u, d, s])"
    | (valid) "l \<or> u \<or> d \<or> s" "max 4 (count_true [l, u, d, s]) \<le> len"
    by linarith
  then show ?thesis
  proof cases
    case no_flag
    then have "generate_password len l u d s na g =
        (Inl (ValueError ''Enable at least one character set.''), g)"
      by (simp add: generate_password_def)
    with no_flag show ?thesis by simp
  next
    case short
    then have "generate_password len l u d s na g =
        (Inl (ValueError ''Length too short for requested complexity.''), g)"
      unfolding generate_password_def by (simp only: if_True if_False not_not not_True_eq_False)
    moreover have "\<not> max 4 (count_true [l, u, d, s]) \<le> len" using short(2) by linarith
    ultimately show ?thesis using short by simp
  next
    case valid
    then obtain pw g' where "generate_password len l u d s na g = (Inr pw, g')"
      using generate_valid [of l u d s len na g] by blast
    moreover have "\<not> len < max 4 (count_true [l, u, d, s])" using valid(2) by linarith
    ultimately show ?thesis using valid(1) by simp
  qed
qed

theorem generate_raises_iff_invalid_witness:
  "generate_password 3 True True True True False \<lparr>tape = (\<lambda>i. 7 * i + 3), pos = 0\<rparr> =
     (Inl (ValueError ''Length too short for requested complexity.''),
      \<lparr>tape = (\<lambda>i. 7 * i + 3), pos = 0\<rparr>) \<and>
   generate_password 8 False False False False False \<lparr>tape = (\<lambda>i. 7 * i + 3), pos = 0\<rparr> =
     (Inl (ValueError ''Enable at least one character set.''),
      \<lparr>tape = (\<lambda>i. 7 * i + 3), pos = 0\<rparr>) \<and>
   (\<exists>pw g'. generate_password 8 True True True True False
      \<lparr>tape = (\<lambda>i. 7 * i + 3), pos = 0\<rparr> = (Inr pw, g'))"
proof -
  let ?g = "\<lparr>tape = (\<lambda>i. 7 * i + 3), pos = 0\<rparr>"
  have a: "generate_password 3 True True True True False ?g =
      (Inl (ValueError ''Length too short for requested complexity.''), ?g)"
    by (simp add: generate_password_def count_true_def)
  have b: "generate_password 8 False False False False False ?g =
      (Inl (ValueError ''Enable at least one character set.''), ?g)"
    by (simp add: generate_password_def)
  have c: "\<exists>pw g'. generate_password 8 True True True True False ?g = (Inr pw, g')"
    using generate_raises_iff_invalid [of 8 True True True True False ?g]
    by (simp add: count_true_def)
  from a b c show ?thesis by (intro conjI)
qed

text \<open>
  Claim C3: on valid parameters the generator returns a string of exactly \<open>length\<close>
  characters, each of which belongs to the pool of a class whose flag is set: lowercase
  letters, uppercase letters, digits or the symbol set.
\<close>

theorem generate_returns_length_and_classes:
  assumes "l \<or> u \<or> d \<or> s" and "max 4 (count_true [l, u, d, s]) \<le> len"
  shows "\<exists>pw g'. generate_password len l u d s na g = (Inr pw, g') \<and> int (length pw) = len \<and>
           (\<forall>c \<in> set pw. (l \<and> c \<in> set ascii_lowercase) \<or> (u \<and> c \<in> set ascii_uppercase) \<or>
                          (d \<and> c \<in> set digits_str) \<or> (s \<and> c \<in> set symbols_str))"
proof -
  obtain pw g' where r: "generate_password len l u d s na g = (Inr pw, g')"
      "int (length pw) = len" "set pw \<subseteq> \<Union> (set ` set (class_pools l u d s))"
    using generate_valid [OF assms] by blast
  have "\<forall>c \<in> set pw. (l \<and> c \<in> set ascii_lowercase) \<or> (u \<and> c \<in> set ascii_uppercase) \<or>
                          (d \<and> c \<in> set digits_str) \<or> (s \<and> c \<in> set symbols_str)"
    using r(3) by (auto simp: class_pools_def split: if_splits)
  with r(1,2) show ?thesis by blast
qed

theorem generate_returns_length_and_classes_witness:
  "fst (generate_password 16 True True True True True \<lparr>tape = (\<lambda>i. 7 * i + 3), pos = 0\<rparr>) =
     Inr ''dtQsXG0+HG$6cs%j'' \<and>
   (\<exists>pw g'. generate_password 16 True True True True True
        \<lparr>tape = (\<lambda>i. 7 * i + 3), pos = 0\<rparr> = (Inr pw, g') \<and>
      int (length pw) = 16 \<and>
      (\<forall>c \<in> set pw. c \<in> set ascii_lowercase \<or> c \<in> set ascii_uppercase \<or>
                     c \<in> set digits_str \<or> c \<in> set symbols_str))"
proof -
  let ?g = "\<lparr>tape = (\<lambda>i. 7 * i + 3), pos = 0\<rparr>"
  have h1: "True \<or> True \<or> True \<or> True" by simp
  have h2: "max 4 (count_true [True, True, True, True]) \<le> 16" by (simp add: count_true_def)
  from generate_returns_length_and_classes [OF h1 h2, of True ?g] default_run
  show ?thesis by simp
qed

text \<open>
  Claim C8: on valid parameters the character pool is not empty, also with the ambiguous
  characters excluded, so the choice from it in the fill step always succeeds and the
  generator never raises the \<^verbatim>\<open>IndexError\<close> of a choice from an empty sequence.
\<close>

theorem charset_nonempty_when_valid:
  assumes "l \<or> u \<or> d \<or> s" and "max 4 (count_true [l, u, d, s]) \<le> len"
  shows "build_charset l u d s na \<noteq> [] \<and>
         (\<forall>g. \<exists>c g'. choice (build_charset l u d s na) g = (Inr c, g')) \<and>
         (\<forall>g msg g'. generate_password len l u d s na g \<noteq> (Inl (IndexError msg), g'))"
proof -
  have ne: "build_charset l u d s na \<noteq> []" using assms(1) by (rule build_charset_nonempty)
  have "\<exists>c g'. choice (build_charset l u d s na) g = (Inr c, g')" for g
    using choice_ok [OF ne, of g] by blast
  moreover have "generate_password len l u d s na g \<noteq> (Inl (IndexError msg), g')" for g msg g'
    using generate_valid [OF assms, of na g] by auto
  ultimately show ?thesis using ne by blast
qed

theorem charset_nonempty_when_valid_witness:
  "build_charset True True True True True =
     ''abcdefghijkmnpqrstuvwxyzABCDEFGHJKLMNPQRSTUVWXYZ23456789!@#$%^&*_-+=?/~'' \<and>
   build_charset True True True True True \<noteq> [] \<and>
   (\<forall>g. \<exists>c g'. choice (build_charset True True True True True) g = (Inr c, g')) \<and>
   (\<forall>g msg g'. generate_password 4 True True True True True g \<noteq> (Inl (IndexError msg), g'))"
proof -
  have v: "build_charset True True True True True =
     ''abcdefghijkmnpqrstuvwxyzABCDEFGHJKLMNPQRSTUVWXYZ23456789!@#$%^&*_-+=?/~''"
    by code_simp
  have h1: "True \<or> True \<or> True \<or> True" by simp
  have h2: "max 4 (count_true [True, True, True, True]) \<le> 4" by (simp add: count_true_def)
  from charset_nonempty_when_valid [OF h1 h2, of True] v
  show ?thesis by (intro conjI) blast+
qed

subsection \<open>Exclusion of ambiguous characters\<close>

text \<open>The combined pool of the fill step is filtered.\<close>

lemma build_charset_excludes_ambiguous:
  "set (build_charset l u d s True) \<inter> AMBIGUOUS = {}"
  by (auto simp: build_charset_def Let_def)

text \<open>
  Claim C1: with the exclusion set, no character of the denylist should appear in the
  output. The overwrite step of lines 137 to 144 draws from the unfiltered class pools, so
  one can: with all four classes, length 16 and the exclusion set, on the run whose draws
  are 3, 10, 17, ... the overwrite for the digit class writes \<open>0\<close>, which is on the
  denylist, and the password returned contains it.
\<close>

theorem generate_ambiguous_overwrite:
  "fst (generate_password 16 True True True True True \<lparr>tape = (\<lambda>i. 7 * i + 3), pos = 0\<rparr>) =
     Inr ''dtQsXG0+HG$6cs%j'' \<and>
   CHR ''0'' \<in> AMBIGUOUS \<and> CHR ''0'' \<in> set ''dtQsXG0+HG$6cs%j''"
  by (simp add: default_run AMBIGUOUS_def)

end
